theory Spec2Isabelle
  imports Main
begin

section \<open>The snow field of \<^verbatim>\<open>snow.py\<close>\<close>

text \<open>
  A flake is the tuple \<^verbatim>\<open>(row, column)\<close> of Python integers; the class
  \<^verbatim>\<open>Snow\<close> holds three integers and the list of flakes. Python integers are
  unbounded, so all of them are \<^typ>\<open>int\<close>.
\<close>

type_synonym flake = "int \<times> int"

record Snow =
  height :: int
  width :: int
  intensity :: int
  flakes :: "flake list"

text \<open>The exceptions that the modelled code can raise.\<close>

datatype py_error = ValueError | IndexError | EOFError | OverflowError | ZeroDivisionError

subsection \<open>The random source\<close>

text \<open>
  The module \<^verbatim>\<open>random\<close> is modelled by an explicit source of entropy that is
  threaded through every call: a list of raw draws, consumed from the front. An
  exhausted source keeps answering 0. \<^verbatim>\<open>_randbelow(n)\<close> reduces the next draw
  modulo \<open>n\<close>, so every value below \<open>n\<close> is a possible answer and a statement
  quantified over all sources covers every outcome of the generator.
\<close>

type_synonym rng = "nat list"

fun randbelow :: "nat \<Rightarrow> rng \<Rightarrow> nat \<times> rng" where
  "randbelow n [] = (0, [])"
| "randbelow n (r # rs) = (r mod n, rs)"

text \<open>
  \<^verbatim>\<open>random.choice(seq)\<close> is \<^verbatim>\<open>seq[self._randbelow(len(seq))]\<close>. Its only call
  site passes the literal \<^verbatim>\<open>[-1, 0, 1]\<close>, so the \<^verbatim>\<open>IndexError\<close> of an empty
  sequence cannot occur and is not modelled.
\<close>

definition random_choice :: "'a list \<Rightarrow> rng \<Rightarrow> 'a \<times> rng" where
  "random_choice seq rs = (case randbelow (length seq) rs of (j, rs') \<Rightarrow> (seq ! j, rs'))"

text \<open>
  \<^verbatim>\<open>random.sample(population, k)\<close> raises \<^verbatim>\<open>ValueError\<close> unless
  \<^verbatim>\<open>0 <= k <= len(population)\<close>. Otherwise it returns \<open>k\<close> elements taken at
  pairwise distinct positions of the population. For a population of at most 21
  elements the library does so with this loop over a copy of the population:
  \<^verbatim>\<open>
    for i in range(k):
        j = randbelow(n - i)
        result[i] = pool[j]
        pool[j] = pool[n - i - 1]
  \<close>
  \<open>sample_loop n i m pool\<close> is that loop with \<open>m\<close> iterations left, at index \<open>i\<close>.
  For larger populations the library may instead redraw an index until it is a fresh
  one; the lists it can return are the same, and the model runs the loop above at
  every size. The properties of \<^verbatim>\<open>new_flakes\<close> below rest on the length of the sample
  and on the distinctness and the range of its elements only.
\<close>

fun sample_loop :: "nat \<Rightarrow> nat \<Rightarrow> nat \<Rightarrow> 'a list \<Rightarrow> rng \<Rightarrow> 'a list \<times> rng" where
  "sample_loop n i 0 pool rs = ([], rs)"
| "sample_loop n i (Suc m) pool rs =
     (case randbelow (n - i) rs of (j, rs') \<Rightarrow>
        (case sample_loop n (Suc i) m (pool[j := pool ! (n - i - 1)]) rs' of
           (result, rs'') \<Rightarrow> (pool ! j # result, rs'')))"

definition random_sample :: "'a list \<Rightarrow> int \<Rightarrow> rng \<Rightarrow> py_error + ('a list \<times> rng)" where
  "random_sample population k rs =
     (let n = length population in
      if \<not> (0 \<le> k \<and> k \<le> int n) then Inl ValueError
      else Inr (sample_loop n 0 (nat k) population rs))"

text \<open>\<^verbatim>\<open>range(stop)\<close> as a list: empty when \<^verbatim>\<open>stop <= 0\<close>.\<close>

definition py_range :: "int \<Rightarrow> int list" where
  "py_range stop = [0..stop - 1]"

subsection \<open>Spawning: \<^verbatim>\<open>Snow.new_flakes\<close>\<close>

text \<open>
  \<^verbatim>\<open>self.width * self.intensity / 100\<close> is Python's true division of two integers:
  the exact quotient rounded to the nearest double, ties to the even significand, and
  \<^verbatim>\<open>OverflowError\<close> when the rounded quotient is beyond the largest double. A finite
  double is modelled by its sign, an integer significand \<open>m\<close> and an exponent \<open>e\<close>,
  with the value \<open>\<plusminus> m * 2\<^sup>e\<close>.
\<close>

datatype double = Double (negative: bool) (significand: int) (exponent: int)

text \<open>\<^verbatim>\<open>int.bit_length()\<close> of a non-negative integer.\<close>

function bit_length :: "int \<Rightarrow> nat" where
  "bit_length x = (if x \<le> 0 then 0 else Suc (bit_length (x div 2)))"
  by pat_completeness auto
termination
  by (relation "measure nat") auto

declare bit_length.simps [simp del]

text \<open>
  For positive \<open>x\<close> and \<open>d\<close>, the exponent \<open>e\<close> with
  \<open>2\<^sup>5\<^sup>2 \<le> x / (d * 2\<^sup>e) < 2\<^sup>5\<^sup>3\<close>: the weight of the last of the 53 bits of
  the quotient. The bit lengths place it within one step, the comparison settles it.
\<close>

definition ulp_exponent :: "int \<Rightarrow> int \<Rightarrow> int" where
  "ulp_exponent x d =
     (let e = int (bit_length x) - int (bit_length d) - 52
      in if x * 2 ^ nat (- e) < 2 ^ 52 * (d * 2 ^ nat e) then e - 1 else e)"

text \<open>The integer nearest to \<open>n / d\<close>, a tie going to the even one.\<close>

definition round_half_even :: "int \<Rightarrow> int \<Rightarrow> int" where
  "round_half_even n d =
     (let q = n div d; r = n mod d
      in if 2 * r < d then q
         else if d < 2 * r then q + 1
         else if even q then q else q + 1)"

text \<open>
  \<open>true_div a b\<close> is \<^verbatim>\<open>a / b\<close> for a divisor of magnitude below \<open>2\<^sup>1\<^sup>0\<^sup>2\<^sup>2\<close>,
  as the literal \<^verbatim>\<open>100\<close> of the source is: a quotient that is not zero is then at
  least \<open>1 / \<bar>b\<bar>\<close> in magnitude, so it has the full 53 bits. The significand is the
  quotient of \<open>\<bar>a\<bar>\<close> by \<open>\<bar>b\<bar> * 2\<^sup>e\<close>, rounded; the result overflows when it
  reaches \<open>2\<^sup>1\<^sup>0\<^sup>2\<^sup>4\<close>.
\<close>

definition true_div :: "int \<Rightarrow> int \<Rightarrow> py_error + double" where
  "true_div a b =
     (let x = \<bar>a\<bar>; d = \<bar>b\<bar>
      in if d = 0 then Inl ZeroDivisionError
         else if x = 0 then Inr (Double False 0 0)
         else
           (let e = ulp_exponent x d;
                m = round_half_even (x * 2 ^ nat (- e)) (d * 2 ^ nat e)
            in if 2 ^ 1024 \<le> m * 2 ^ nat e then Inl OverflowError
               else Inr (Double ((a < 0) \<noteq> (b < 0)) m e)))"

text \<open>\<^verbatim>\<open>int(x)\<close> of a finite double: the value truncated towards zero.\<close>

definition py_int :: "double \<Rightarrow> int" where
  "py_int x =
     (let t = (if 0 \<le> exponent x then significand x * 2 ^ nat (exponent x)
               else significand x div 2 ^ nat (- exponent x))
      in if negative x then - t else t)"

text \<open>The first statement of the method: \<^verbatim>\<open>int(self.width * self.intensity / 100)\<close>.\<close>

definition num_flakes :: "Snow \<Rightarrow> py_error + int" where
  "num_flakes s =
     (case true_div (width s * intensity s) 100 of
        Inl e \<Rightarrow> Inl e
      | Inr x \<Rightarrow> Inr (py_int x))"

definition new_flakes :: "Snow \<Rightarrow> rng \<Rightarrow> py_error + (flake list \<times> rng)" where
  "new_flakes s rs =
     (case num_flakes s of
        Inl e \<Rightarrow> Inl e
      | Inr k \<Rightarrow>
          (case random_sample (py_range (width s)) k rs of
             Inl e \<Rightarrow> Inl e
           | Inr (cols, rs') \<Rightarrow> Inr (map (\<lambda>col. (0, col)) cols, rs')))"

subsection \<open>Moving: \<^verbatim>\<open>Snow.moved_flakes\<close>\<close>

text \<open>The list comprehension draws one shimmy per flake, from left to right.\<close>

fun moved_flakes :: "flake list \<Rightarrow> rng \<Rightarrow> flake list \<times> rng" where
  "moved_flakes [] rs = ([], rs)"
| "moved_flakes ((row, col) # fs) rs =
     (case random_choice [- 1, 0, 1] rs of (d, rs') \<Rightarrow>
        (case moved_flakes fs rs' of (ms, rs'') \<Rightarrow> ((row + 1, col + d) # ms, rs'')))"

subsection \<open>One tick: \<^verbatim>\<open>Snow.update_flakes\<close>\<close>

text \<open>
  The three statements of the method, in order. When \<^verbatim>\<open>new_flakes\<close> raises, the
  exception leaves the method (the moved flakes have been stored by then; the model
  returns the exception only).
\<close>

definition update_flakes :: "Snow \<Rightarrow> rng \<Rightarrow> py_error + (Snow \<times> rng)" where
  "update_flakes s rs =
     (case moved_flakes (flakes s) rs of (ms, rs1) \<Rightarrow>
        (let s1 = s\<lparr>flakes := ms\<rparr> in
         case new_flakes s1 rs1 of
           Inl e \<Rightarrow> Inl e
         | Inr (ns, rs2) \<Rightarrow>
             Inr (s1\<lparr>flakes := filter (\<lambda>(row, col). row < height s1) (flakes s1 @ ns)\<rparr>, rs2)))"

subsection \<open>Drawing: \<^verbatim>\<open>Snow.render\<close>\<close>

text \<open>
  Indexing a Python list of length \<open>n\<close> with \<open>i\<close>: a negative index counts from the
  end, and an index outside \<open>[-n, n)\<close> raises \<^verbatim>\<open>IndexError\<close>.
\<close>

definition py_index :: "nat \<Rightarrow> int \<Rightarrow> py_error + nat" where
  "py_index n i =
     (let j = (if i < 0 then i + int n else i)
      in if 0 \<le> j \<and> j < int n then Inr (nat j) else Inl IndexError)"

text \<open>
  The grid is a list of rows; each cell holds a one-character string, so a row is
  modelled as a \<^typ>\<open>string\<close> and \<^verbatim>\<open>"".join(row)\<close> is the row itself.
  \<open>set_cell\<close> is the statement \<^verbatim>\<open>grid[row][col] = "*"\<close>.
\<close>

definition set_cell :: "string list \<Rightarrow> int \<Rightarrow> int \<Rightarrow> py_error + string list" where
  "set_cell grid row col =
     (case py_index (length grid) row of
        Inl e \<Rightarrow> Inl e
      | Inr r \<Rightarrow>
          (case py_index (length (grid ! r)) col of
             Inl e \<Rightarrow> Inl e
           | Inr c \<Rightarrow> Inr (grid[r := (grid ! r)[c := CHR ''*'']])))"

text \<open>The loop over \<^verbatim>\<open>self.flakes\<close>, with its guard as the source writes it.\<close>

fun mark_flakes :: "int \<Rightarrow> int \<Rightarrow> flake list \<Rightarrow> string list \<Rightarrow> py_error + string list" where
  "mark_flakes h w [] grid = Inr grid"
| "mark_flakes h w ((row, col) # fs) grid =
     (if row < h \<and> col < w then
        (case set_cell grid row col of
           Inl e \<Rightarrow> Inl e
         | Inr grid' \<Rightarrow> mark_flakes h w fs grid')
      else mark_flakes h w fs grid)"

text \<open>\<^verbatim>\<open>sep.join(rows)\<close>.\<close>

fun str_join :: "string \<Rightarrow> string list \<Rightarrow> string" where
  "str_join sep [] = []"
| "str_join sep [x] = x"
| "str_join sep (x # y # ys) = x @ sep @ str_join sep (y # ys)"

definition newline :: string where
  "newline = [CHR 0x0A]"

definition blank_grid :: "int \<Rightarrow> int \<Rightarrow> string list" where
  "blank_grid h w = replicate (nat h) (replicate (nat w) CHR '' '')"

definition render :: "Snow \<Rightarrow> py_error + string" where
  "render s =
     (case mark_flakes (height s) (width s) (flakes s) (blank_grid (height s) (width s)) of
        Inl e \<Rightarrow> Inl e
      | Inr grid \<Rightarrow> Inr (str_join newline grid))"

subsection \<open>The input loop: \<^verbatim>\<open>user_input_handler\<close>\<close>

text \<open>
  The variables of \<^verbatim>\<open>main\<close> that the handler reaches through \<^verbatim>\<open>nonlocal\<close>.
  Only the handler writes \<^verbatim>\<open>running\<close>, \<^verbatim>\<open>display_help\<close> and
  \<^verbatim>\<open>snow.intensity\<close>; the simulation thread reads them.
\<close>

record main_vars =
  snow :: Snow
  running :: bool
  display_help :: bool

text \<open>
  \<^verbatim>\<open>re.match(r"[0-9]", user_input)\<close> on a string of length one, and \<^verbatim>\<open>int\<close>
  of such a string. A Python string is a sequence of code points and a \<^typ>\<open>string\<close>
  a sequence of bytes: a single code point above 127 is several bytes here, and in both
  readings it is not a digit.
\<close>

definition is_digit :: "char \<Rightarrow> bool" where
  "is_digit c = ((48::nat) \<le> of_char c \<and> of_char c \<le> (57::nat))"

definition digit_value :: "char \<Rightarrow> int" where
  "digit_value c = int (of_char c) - 48"

text \<open>The \<^verbatim>\<open>match\<close> statement: the first case that matches is taken.\<close>

definition handle_input :: "string \<Rightarrow> main_vars \<Rightarrow> main_vars" where
  "handle_input user_input st =
     (if user_input = ''x'' then st\<lparr>running := False\<rparr>
      else if user_input = ''i'' then
        st\<lparr>snow := (snow st)\<lparr>intensity := min (intensity (snow st) + 1) 10\<rparr>\<rparr>
      else if user_input = ''d'' then
        st\<lparr>snow := (snow st)\<lparr>intensity := max (intensity (snow st) - 1) 0\<rparr>\<rparr>
      else if user_input = ''h'' then st\<lparr>display_help := \<not> display_help st\<rparr>
      else if length user_input = 1 \<and> is_digit (hd user_input) then
        st\<lparr>snow := (snow st)\<lparr>intensity := digit_value (hd user_input)\<rparr>\<rparr>
      else st)"

text \<open>
  The loop \<^verbatim>\<open>while running: user_input = input(); match ...\<close> over the lines that
  standard input still holds. \<^verbatim>\<open>input()\<close> raises \<^verbatim>\<open>EOFError\<close> when no line is
  left; the handler has no \<^verbatim>\<open>try\<close>, so the exception ends it. The result is the
  exception that ended the loop, if any, and the variables as the loop left them.
\<close>

fun user_input_handler :: "string list \<Rightarrow> main_vars \<Rightarrow> py_error option \<times> main_vars" where
  "user_input_handler [] st =
     (if running st then (Some EOFError, st) else (None, st))"
| "user_input_handler (user_input # rest) st =
     (if running st then user_input_handler rest (handle_input user_input st)
      else (None, st))"

text \<open>
  \<open>ticks n\<close> is \<open>n\<close> rounds of the simulation loop's \<^verbatim>\<open>snow.update_flakes()\<close>,
  stopping at the first exception.
\<close>

fun ticks :: "nat \<Rightarrow> Snow \<Rightarrow> rng \<Rightarrow> py_error + (Snow \<times> rng)" where
  "ticks 0 s rs = Inr (s, rs)"
| "ticks (Suc n) s rs =
     (case update_flakes s rs of
        Inl e \<Rightarrow> Inl e
      | Inr (s', rs') \<Rightarrow> ticks n s' rs')"

text \<open>
  The relation between a flake and what \<^verbatim>\<open>moved_flakes\<close> makes of it: one row
  down, at most one column aside.
\<close>

definition shimmied :: "flake \<Rightarrow> flake \<Rightarrow> bool" where
  "shimmied f m = (fst m = fst f + 1 \<and> snd m - snd f \<in> {- 1, 0, 1})"

section \<open>Properties\<close>

subsection \<open>Sampling without replacement\<close>

lemma randbelow_less: "0 < n \<Longrightarrow> fst (randbelow n rs) < n"
  by (cases rs) auto

lemma pool_step:
  assumes "Suc k \<le> length pool" "j \<le> k" "distinct (take (Suc k) pool)"
  shows "distinct (take k (pool[j := pool ! k])) \<and>
         set (take k (pool[j := pool ! k])) = set (take (Suc k) pool) - {pool ! j}"
proof (cases "j = k")
  case True
  have "take (Suc k) pool = take k pool @ [pool ! k]"
    using assms(1) by (simp add: take_Suc_conv_app_nth)
  with assms(3) True show ?thesis by auto
next
  case False
  with assms have jk: "j < k" by simp
  have t: "take (Suc k) pool = take k pool @ [pool ! k]"
    using assms(1) by (simp add: take_Suc_conv_app_nth)
  have d: "distinct (take k pool)" and notin: "pool ! k \<notin> set (take k pool)"
    using assms(3) t by auto
  have e: "take k (pool[j := pool ! k]) = (take k pool)[j := pool ! k]"
    using jk by (simp add: take_update_swap)
  have lj: "j < length (take k pool)" using jk assms(1) by simp
  have nj: "take k pool ! j = pool ! j" using jk by simp
  have jin: "pool ! j \<in> set (take k pool)" using nth_mem[OF lj] by (simp only: nj)
  have ne: "pool ! j \<noteq> pool ! k" using jin notin by auto
  have 1: "distinct ((take k pool)[j := pool ! k])"
    using d notin by (simp add: distinct_list_update)
  have 2: "set ((take k pool)[j := pool ! k]) = insert (pool ! k) (set (take k pool) - {pool ! j})"
    using set_update_distinct[OF d lj, of "pool ! k"] nj by simp
  have 3: "set (take (Suc k) pool) = insert (pool ! k) (set (take k pool))"
    by (simp add: t)
  have 4: "insert (pool ! k) (set (take k pool) - {pool ! j}) = insert (pool ! k) (set (take k pool)) - {pool ! j}"
    using ne by blast
  show ?thesis unfolding e 3 using 1 2 4 by simp
qed

lemma sample_loop_props:
  "m \<le> n - i \<Longrightarrow> n - i \<le> length pool \<Longrightarrow> distinct (take (n - i) pool) \<Longrightarrow>
   sample_loop n i m pool rs = (res, rs') \<Longrightarrow>
   length res = m \<and> distinct res \<and> set res \<subseteq> set (take (n - i) pool)"
proof (induction m arbitrary: i pool rs res rs')
  case 0
  then show ?case by simp
next
  case (Suc m)
  obtain j rs1 where rb: "randbelow (n - i) rs = (j, rs1)" by (cases "randbelow (n - i) rs")
  define k where "k = n - i - 1"
  obtain xs rs2 where rec: "sample_loop n (Suc i) m (pool[j := pool ! k]) rs1 = (xs, rs2)"
    by (cases "sample_loop n (Suc i) m (pool[j := pool ! k]) rs1")
  from Suc.prems(4) rb rec have res: "res = pool ! j # xs" by (simp add: k_def)
  have pos: "0 < n - i" using Suc.prems(1) by simp
  then have jlt: "j < n - i" using randbelow_less[of "n - i" rs] rb by simp
  have k1: "n - i = Suc k" and k2: "n - Suc i = k" using pos by (simp_all add: k_def)
  have st: "distinct (take k (pool[j := pool ! k])) \<and>
         set (take k (pool[j := pool ! k])) = set (take (Suc k) pool) - {pool ! j}"
    using pool_step[of k pool j] Suc.prems(2,3) jlt unfolding k1 by simp
  have "length xs = m \<and> distinct xs \<and> set xs \<subseteq> set (take (n - Suc i) (pool[j := pool ! k]))"
  proof (rule Suc.IH[OF _ _ _ rec])
    show "m \<le> n - Suc i" using Suc.prems(1) by simp
    show "n - Suc i \<le> length (pool[j := pool ! k])" using Suc.prems(2) by simp
    show "distinct (take (n - Suc i) (pool[j := pool ! k]))" unfolding k2 using st by simp
  qed
  then have ih: "length xs = m \<and> distinct xs \<and> set xs \<subseteq> set (take k (pool[j := pool ! k]))"
    unfolding k2 .
  have jl: "j < length (take (Suc k) pool)" using jlt Suc.prems(2) unfolding k1 by simp
  have "take (Suc k) pool ! j = pool ! j" using jlt unfolding k1 by simp
  then have jin: "pool ! j \<in> set (take (Suc k) pool)"
    using nth_mem[OF jl] by simp
  show ?case unfolding k1 res using ih st jin by auto
qed


lemma random_sample_raises:
  "k < 0 \<or> int (length population) < k \<Longrightarrow> random_sample population k rs = Inl ValueError"
  by (auto simp: random_sample_def)

lemma random_sample_returns:
  assumes "0 \<le> k" "k \<le> int (length population)" "distinct population"
  shows "\<exists>res rs'. random_sample population k rs = Inr (res, rs') \<and>
           length res = nat k \<and> distinct res \<and> set res \<subseteq> set population"
proof -
  define n where "n = length population"
  obtain res rs' where sl: "sample_loop n 0 (nat k) population rs = (res, rs')"
    by (cases "sample_loop n 0 (nat k) population rs")
  have "length res = nat k \<and> distinct res \<and> set res \<subseteq> set (take (n - 0) population)"
    using assms by (intro sample_loop_props[OF _ _ _ sl]) (simp_all add: n_def)
  moreover have "random_sample population k rs = Inr (res, rs')"
    using assms sl by (simp add: random_sample_def n_def)
  ultimately show ?thesis by (simp add: n_def)
qed

lemma length_py_range: "length (py_range w) = nat w"
  by (simp add: py_range_def)

lemma distinct_py_range: "distinct (py_range w)"
  by (simp add: py_range_def)

lemma set_py_range: "set (py_range w) = {c. 0 \<le> c \<and> c < w}"
  by (auto simp: py_range_def)

lemma new_flakes_overflow: "num_flakes s = Inl e \<Longrightarrow> new_flakes s rs = Inl e"
  by (simp add: new_flakes_def)

lemma new_flakes_raises:
  assumes "num_flakes s = Inr k" and "k < 0 \<or> max 0 (width s) < k"
  shows "new_flakes s rs = Inl ValueError"
proof -
  from assms(2) have "k < 0 \<or> int (length (py_range (width s))) < k"
    by (auto simp: length_py_range)
  from random_sample_raises[OF this] assms(1) show ?thesis by (simp add: new_flakes_def)
qed

lemma new_flakes_returns:
  assumes "num_flakes s = Inr k" and "0 \<le> k" and "k \<le> max 0 (width s)"
  shows "\<exists>fs rs'. new_flakes s rs = Inr (fs, rs') \<and> int (length fs) = k \<and>
           (\<forall>f \<in> set fs. fst f = 0 \<and> 0 \<le> snd f \<and> snd f < width s) \<and> distinct (map snd fs)"
proof -
  have "k \<le> int (length (py_range (width s)))"
    using assms(3) by (auto simp: length_py_range)
  from random_sample_returns[OF assms(2) this distinct_py_range, of rs]
  obtain cols rs' where rs: "random_sample (py_range (width s)) k rs = Inr (cols, rs')"
    and len: "length cols = nat k" and d: "distinct cols"
    and sub: "set cols \<subseteq> set (py_range (width s))" by blast
  have snd_map: "map snd (map (\<lambda>col. (0::int, col)) cols) = cols"
    by (simp add: comp_def)
  have "new_flakes s rs = Inr (map (\<lambda>col. (0, col)) cols, rs')"
    using rs assms(1) by (simp add: new_flakes_def)
  moreover have "int (length (map (\<lambda>col. (0::int, col)) cols)) = k"
    using len assms(2) by simp
  moreover have "\<forall>f \<in> set (map (\<lambda>col. (0::int, col)) cols). fst f = 0 \<and> 0 \<le> snd f \<and> snd f < width s"
    using sub by (auto simp: set_py_range)
  moreover have "distinct (map snd (map (\<lambda>col. (0::int, col)) cols))"
    unfolding snd_map by (rule d)
  ultimately show ?thesis by blast
qed

lemma new_flakes_result:
  assumes "new_flakes s rs = Inr (fs, rs')"
  shows "\<exists>k. num_flakes s = Inr k \<and> 0 \<le> k \<and> k \<le> max 0 (width s) \<and> int (length fs) = k \<and>
           (\<forall>f \<in> set fs. fst f = 0 \<and> 0 \<le> snd f \<and> snd f < width s) \<and> distinct (map snd fs)"
proof (cases "num_flakes s")
  case (Inl e)
  from new_flakes_overflow[OF this, of rs] assms show ?thesis by simp
next
  case (Inr k)
  show ?thesis
  proof (cases "k < 0 \<or> max 0 (width s) < k")
    case True
    from new_flakes_raises[OF Inr this, of rs] assms show ?thesis by simp
  next
    case False
    then have a: "0 \<le> k" and b: "k \<le> max 0 (width s)" by auto
    from new_flakes_returns[OF Inr a b, of rs] assms Inr a b show ?thesis by auto
  qed
qed

subsection \<open>The quotient in double precision\<close>

text \<open>
  Below \<open>2\<^sup>5\<^sup>3\<close> the rounding of the quotient by 100 never reaches the next
  integer, so \<^verbatim>\<open>int(x / 100)\<close> is the floor of the exact quotient there.
\<close>

lemma bit_length_le: "x < 2 ^ k \<Longrightarrow> bit_length x \<le> k"
proof (induction k arbitrary: x)
  case 0
  then have "x \<le> 0" by simp
  then show ?case by (simp add: bit_length.simps)
next
  case (Suc k)
  show ?case
  proof (cases "x \<le> 0")
    case True
    then show ?thesis by (simp add: bit_length.simps)
  next
    case False
    from Suc.prems have "x div 2 < 2 ^ k" by simp
    from Suc.IH[OF this] False show ?thesis by (subst bit_length.simps) simp
  qed
qed

lemma bit_length_100: "bit_length 100 = 7"
  by code_simp

lemma ulp_exponent_bounds:
  assumes "x < 2 ^ 53"
  shows "- 60 \<le> ulp_exponent x 100 \<and> ulp_exponent x 100 \<le> - 6"
proof -
  have "bit_length x \<le> 53" using assms by (rule bit_length_le)
  then show ?thesis by (auto simp: ulp_exponent_def Let_def bit_length_100)
qed

lemma round_half_even_cases:
  "round_half_even n d = n div d \<or> (round_half_even n d = n div d + 1 \<and> d \<le> 2 * (n mod d))"
  by (auto simp: round_half_even_def Let_def)

lemma round_then_truncate:
  assumes "0 \<le> x" and "64 \<le> S"
  shows "round_half_even (x * S) 100 div S = x div 100"
proof -
  define q where "q = x div 100"
  define r where "r = x mod 100"
  define t where "t = r * S div 100"
  define u where "u = r * S mod 100"
  have x: "x = 100 * q + r" by (simp add: q_def r_def)
  have r: "0 \<le> r" "r < 100" by (simp_all add: r_def)
  have rS: "r * S = 100 * t + u" by (simp add: t_def u_def)
  have u: "0 \<le> u" "u < 100" by (simp_all add: u_def)
  have Spos: "0 < S" using assms(2) by simp
  have "r * S \<le> 99 * S" using r assms(2) by (intro mult_right_mono) simp_all
  then have t99: "100 * t + u \<le> 99 * S" using rS by simp
  have t0: "0 \<le> t" unfolding t_def using r Spos by (simp add: pos_imp_zdiv_nonneg_iff)
  have xS: "x * S = 100 * (q * S + t) + u" using rS by (simp add: x algebra_simps)
  have dv: "x * S div 100 = q * S + t" unfolding xS using u by simp
  have "(100 * (q * S + t) + u) mod 100 = u mod 100" by (rule mod_mult_self4)
  then have md: "x * S mod 100 = u" unfolding xS using u by (simp only: mod_pos_pos_trivial)
  have tS: "t < S" using t99 u Spos by linarith
  have low: "(q * S + t) div S = q" using t0 tS Spos by simp
  from round_half_even_cases[of "x * S" 100]
  show ?thesis
  proof
    assume "round_half_even (x * S) 100 = x * S div 100"
    then show ?thesis using dv low by (simp add: q_def)
  next
    assume a: "round_half_even (x * S) 100 = x * S div 100 + 1 \<and> 100 \<le> 2 * (x * S mod 100)"
    then have "50 \<le> u" using md by simp
    with t99 assms(2) have "t + 1 < S" by linarith
    then have "(q * S + (t + 1)) div S = q" using t0 Spos by simp
    then show ?thesis using a dv by (simp add: q_def add.assoc)
  qed
qed

lemma true_div_100_exact:
  assumes "0 \<le> a" and "a < 2 ^ 53"
  shows "\<exists>x. true_div a 100 = Inr x \<and> py_int x = a div 100"
proof (cases "a = 0")
  case True
  then show ?thesis by (simp add: true_div_def py_int_def)
next
  case False
  define e where "e = ulp_exponent a 100"
  define S :: int where "S = 2 ^ nat (- e)"
  define m where "m = round_half_even (a * S) 100"
  from ulp_exponent_bounds[OF assms(2)] have e: "- 60 \<le> e" "e \<le> - 6" by (simp_all add: e_def)
  have ne: "nat e = 0" using e by simp
  have "(2::int) ^ 6 \<le> 2 ^ nat (- e)" using e by (intro power_increasing) simp_all
  then have S64: "64 \<le> S" by (simp add: S_def)
  have "(2::int) ^ nat (- e) \<le> 2 ^ 60" using e by (intro power_increasing) simp_all
  then have S60: "S \<le> 2 ^ 60" by (simp add: S_def)
  have trunc: "m div S = a div 100"
    unfolding m_def using assms(1) S64 by (rule round_then_truncate)
  have aS: "a * S \<le> 2 ^ 53 * 2 ^ 60"
    using assms S60 S64 by (intro mult_mono) simp_all
  have "0 \<le> a * S" using assms(1) S64 by simp
  moreover have "\<And>y::int. 0 \<le> y \<Longrightarrow> y div 100 \<le> y" by presburger
  ultimately have "a * S div 100 \<le> a * S" by blast
  moreover have "m \<le> a * S div 100 + 1"
    using round_half_even_cases[of "a * S" 100] by (auto simp: m_def)
  ultimately have "m \<le> 2 ^ 53 * 2 ^ 60 + 1" using aS by linarith
  then have small: "m < 2 ^ 1024" by simp
  have td: "true_div a 100 = Inr (Double False m e)"
    using False assms(1) small
    by (simp add: true_div_def Let_def e_def[symmetric] ne S_def[symmetric] m_def[symmetric])
  have "py_int (Double False m e) = m div S"
    using e by (simp add: py_int_def S_def)
  with td trunc show ?thesis by simp
qed

lemma num_flakes_exact:
  assumes "0 \<le> width s * intensity s" and "width s * intensity s < 2 ^ 53"
  shows "num_flakes s = Inr (width s * intensity s div 100)"
  using true_div_100_exact[OF assms] by (auto simp: num_flakes_def)

text \<open>
  The model of the division is the rounding it is meant to be: the exponent leaves a
  quotient of exactly 53 bits before rounding, so the significand lies in
  \<open>[2\<^sup>5\<^sup>2, 2\<^sup>5\<^sup>3]\<close>; and it gives the doubles of \<open>0.01\<close> and \<open>1/3\<close>, rounds
  a tie to the even significand, and overflows from \<open>2\<^sup>1\<^sup>0\<^sup>2\<^sup>4 - 2\<^sup>9\<^sup>7\<^sup>0\<close> on.
\<close>

lemma bit_length_bounds:
  "0 < x \<Longrightarrow> 2 ^ (bit_length x - 1) \<le> x \<and> x < 2 ^ bit_length x"
proof (induction x rule: bit_length.induct)
  case (1 x)
  show ?case
  proof (cases "x = 1")
    case True
    then show ?thesis by (simp add: bit_length.simps[of 1] bit_length.simps[of 0])
  next
    case False
    with "1.prems" have h: "0 < x div 2" "\<not> x \<le> 0" by simp_all
    from "1.IH"[OF h(2) h(1)]
    have lo: "2 ^ (bit_length (x div 2) - 1) \<le> x div 2" and hi: "x div 2 < 2 ^ bit_length (x div 2)"
      by simp_all
    have pos: "0 < bit_length (x div 2)"
      using h(1) by (subst bit_length.simps) simp
    have bl: "bit_length x = Suc (bit_length (x div 2))"
      using h(2) by (subst bit_length.simps) simp
    have "2 * 2 ^ (bit_length (x div 2) - 1) \<le> 2 * (x div 2)" using lo by simp
    also have "\<dots> \<le> x" by simp
    finally have "2 ^ Suc (bit_length (x div 2) - 1) \<le> x" by simp
    then have a: "2 ^ (bit_length x - 1) \<le> x" using pos by (simp add: bl)
    have "x < 2 * (x div 2) + 2" by presburger
    also have "\<dots> \<le> 2 * 2 ^ bit_length (x div 2)" using hi by simp
    finally have b: "x < 2 ^ bit_length x" by (simp add: bl)
    from a b show ?thesis ..
  qed
qed


lemma ulp_exponent_normalises:
  assumes "0 < x" and "0 < d"
  shows "2 ^ 52 * (d * 2 ^ nat (ulp_exponent x d)) \<le> x * 2 ^ nat (- ulp_exponent x d) \<and>
         x * 2 ^ nat (- ulp_exponent x d) < 2 ^ 53 * (d * 2 ^ nat (ulp_exponent x d))"
proof -
  define lx where "lx = bit_length x"
  define ld where "ld = bit_length d"
  define h where "h = int lx - int ld - 52"
  from bit_length_bounds[OF assms(1)] have x: "2 ^ (lx - 1) \<le> x" "x < 2 ^ lx"
    by (simp_all add: lx_def)
  from bit_length_bounds[OF assms(2)] have d: "2 ^ (ld - 1) \<le> d" "d < 2 ^ ld"
    by (simp_all add: ld_def)
  have lx1: "1 \<le> lx" using assms(1) unfolding lx_def by (subst bit_length.simps) simp
  have ld1: "1 \<le> ld" using assms(2) unfolding ld_def by (subst bit_length.simps) simp
  have two_ld: "(2::int) ^ ld = 2 * 2 ^ (ld - 1)"
    using ld1 by (cases ld) simp_all
  have two_lx: "(2::int) ^ lx = 2 * 2 ^ (lx - 1)"
    using lx1 by (cases lx) simp_all
  have ue: "ulp_exponent x d =
      (if x * 2 ^ nat (- h) < 2 ^ 52 * (d * 2 ^ nat h) then h - 1 else h)"
    by (simp add: ulp_exponent_def Let_def h_def lx_def ld_def)
  show ?thesis
  proof (cases "h \<le> 0")
    case True
    define k where "k = nat (- h)"
    have nh: "nat h = 0" "nat (- h) = k" "nat (h - 1) = 0" "nat (- (h - 1)) = Suc k"
      using True by (simp_all add: k_def)
    have sum: "lx + k = ld + 52" using True by (simp add: k_def h_def)
    have upper: "x * 2 ^ k < 2 ^ 53 * d"
    proof -
      have "x * 2 ^ k < 2 ^ lx * 2 ^ k" using x(2) by simp
      also have "\<dots> = 2 ^ (ld + 52)" by (simp add: power_add[symmetric] sum)
      also have "\<dots> = 2 ^ 53 * 2 ^ (ld - 1)" by (simp add: power_add two_ld)
      also have "\<dots> \<le> 2 ^ 53 * d" using d(1) by simp
      finally show ?thesis .
    qed
    have lower: "2 ^ 52 * d < x * 2 ^ Suc k"
    proof -
      have "2 ^ 52 * d < 2 ^ 52 * 2 ^ ld" using d(2) by simp
      also have "\<dots> = 2 ^ (lx + k)" by (simp add: power_add sum)
      also have "\<dots> = 2 ^ (lx - 1) * 2 ^ Suc k" by (simp add: power_add two_lx)
      also have "\<dots> \<le> x * 2 ^ Suc k" using x(1) by (intro mult_right_mono) simp_all
      finally show ?thesis .
    qed
    show ?thesis
    proof (cases "x * 2 ^ k < 2 ^ 52 * d")
      case True
      then have "ulp_exponent x d = h - 1" by (simp add: ue nh)
      then have "nat (ulp_exponent x d) = nat (h - 1)" "nat (- ulp_exponent x d) = nat (- (h - 1))"
        by simp_all
      then show ?thesis unfolding nh using True lower by simp
    next
      case False
      then have "ulp_exponent x d = h" by (simp add: ue nh)
      then have "nat (ulp_exponent x d) = nat h" "nat (- ulp_exponent x d) = nat (- h)"
        by simp_all
      then show ?thesis unfolding nh using False upper by simp
    qed
  next
    case False
    define k where "k = nat (h - 1)"
    have nh: "nat h = Suc k" "nat (- h) = 0" "nat (h - 1) = k" "nat (- (h - 1)) = 0"
      using False by (simp_all add: k_def)
    have sum: "lx = ld + 52 + Suc k" using False by (simp add: k_def h_def)
    have upper: "x < 2 ^ 53 * (d * 2 ^ Suc k)"
    proof -
      have "x < 2 ^ (ld + 52 + Suc k)" using x(2) by (simp only: sum)
      also have "\<dots> = 2 ^ 53 * (2 ^ (ld - 1) * 2 ^ Suc k)" by (simp add: power_add two_ld)
      also have "\<dots> \<le> 2 ^ 53 * (d * 2 ^ Suc k)"
        using d(1) by (intro mult_left_mono mult_right_mono) simp_all
      finally show ?thesis .
    qed
    have lower: "2 ^ 52 * (d * 2 ^ k) < x"
    proof -
      have "d * 2 ^ k < 2 ^ ld * 2 ^ k" using d(2) by simp
      then have "2 ^ 52 * (d * 2 ^ k) < 2 ^ 52 * (2 ^ ld * 2 ^ k)" by simp
      also have "\<dots> = 2 ^ (lx - 1)" by (simp add: power_add sum)
      also have "\<dots> \<le> x" by (rule x(1))
      finally show ?thesis .
    qed
    show ?thesis
    proof (cases "x < 2 ^ 52 * (d * 2 ^ Suc k)")
      case True
      then have "ulp_exponent x d = h - 1" by (simp add: ue nh)
      then have "nat (ulp_exponent x d) = nat (h - 1)" "nat (- ulp_exponent x d) = nat (- (h - 1))"
        by simp_all
      then show ?thesis unfolding nh using True lower by simp
    next
      case False
      then have "ulp_exponent x d = h" by (simp add: ue nh)
      then have "nat (ulp_exponent x d) = nat h" "nat (- ulp_exponent x d) = nat (- h)"
        by simp_all
      then show ?thesis unfolding nh using False upper by simp
    qed
  qed
qed

lemma quotient_range:
  fixes N D :: int
  assumes "0 < D" and "c * D \<le> N" and "N < c' * D"
  shows "c \<le> N div D \<and> N div D < c'"
proof
  have "c * D div D \<le> N div D" using assms(2,1) by (rule zdiv_mono1)
  then show "c \<le> N div D" using assms(1) by simp
  show "N div D < c'"
  proof (rule ccontr)
    assume "\<not> N div D < c'"
    then have "c' * D \<le> N div D * D" using assms(1) by (intro mult_right_mono) simp_all
    moreover have "0 \<le> N mod D" using assms(1) by simp
    moreover have "N div D * D + N mod D = N" by (rule div_mult_mod_eq)
    ultimately show False using assms(3) by linarith
  qed
qed

lemma significand_range:
  assumes "true_div a b = Inr x" and "a \<noteq> 0" and "0 < b"
  shows "2 ^ 52 \<le> significand x \<and> significand x \<le> 2 ^ 53"
proof -
  define e where "e = ulp_exponent \<bar>a\<bar> b"
  define N where "N = \<bar>a\<bar> * 2 ^ nat (- e)"
  define D where "D = b * 2 ^ nat e"
  have D: "0 < D" using assms(3) by (simp add: D_def)
  from assms have m: "significand x = round_half_even N D"
    by (auto simp: true_div_def Let_def e_def N_def D_def split: if_splits)
  have "0 < \<bar>a\<bar>" using assms(2) by simp
  from ulp_exponent_normalises[OF this assms(3)]
  have "2 ^ 52 * D \<le> N" "N < 2 ^ 53 * D" by (simp_all add: e_def N_def D_def)
  from quotient_range[OF D this] have "2 ^ 52 \<le> N div D" "N div D < 2 ^ 53" by simp_all
  then show ?thesis
    using round_half_even_cases[of N D] unfolding m by auto
qed

lemma true_div_examples:
  "true_div 1 100 = Inr (Double False 5764607523034235 (- 59))"
  "true_div 1 3 = Inr (Double False 6004799503160661 (- 54))"
  "true_div (- 7) 2 = Inr (Double True (7 * 2 ^ 50) (- 51))"
  "true_div 7 (- 2) = Inr (Double True (7 * 2 ^ 50) (- 51))"
  "true_div 7 0 = Inl ZeroDivisionError"
  "true_div (2 ^ 53 + 1) 1 = Inr (Double False (2 ^ 52) 1)"
  "true_div (2 ^ 53 + 3) 1 = Inr (Double False (2 ^ 52 + 2) 1)"
  "true_div (2 ^ 1024 - 2 ^ 970 - 1) 1 = Inr (Double False (2 ^ 53 - 1) 971)"
  "true_div (2 ^ 1024 - 2 ^ 970) 1 = Inl OverflowError"
  by code_simp+

subsection \<open>Moving and culling\<close>

lemma random_choice_shimmy: "fst (random_choice [- 1, 0, 1 :: int] rs) \<in> {- 1, 0, 1}"
proof (cases rs)
  case Nil
  then show ?thesis by (simp add: random_choice_def)
next
  case (Cons r rs')
  have "r mod 3 = 0 \<or> r mod 3 = 1 \<or> r mod 3 = 2" by arith
  then show ?thesis using Cons by (auto simp: random_choice_def)
qed

lemma moved_flakes_all2:
  "moved_flakes fs rs = (ms, rs') \<Longrightarrow> list_all2 shimmied fs ms"
proof (induction fs arbitrary: rs ms rs')
  case Nil
  then show ?case by simp
next
  case (Cons f fs)
  obtain row col where f: "f = (row, col)" by (cases f)
  obtain d rs1 where rc: "random_choice [- 1, 0, 1 :: int] rs = (d, rs1)"
    by (cases "random_choice [- 1, 0, 1 :: int] rs")
  obtain ms1 rs2 where rec: "moved_flakes fs rs1 = (ms1, rs2)"
    by (cases "moved_flakes fs rs1")
  have d: "d \<in> {- 1, 0, 1}" using random_choice_shimmy[of rs] rc by simp
  have ms: "ms = (row + 1, col + d) # ms1" using Cons.prems f rc rec by simp
  show ?case unfolding ms f using Cons.IH[OF rec] d by (auto simp: shimmied_def)
qed

lemma filter_moved_length:
  "list_all2 shimmied fs ms \<Longrightarrow>
   length (filter (\<lambda>(row, col). row < h) ms) = length (filter (\<lambda>f. fst f + 1 < h) fs)"
  by (induction fs ms rule: list_all2_induct) (auto simp: shimmied_def split: prod.splits)

lemma update_flakes_Inr:
  assumes "update_flakes s rs = Inr (s', rs')"
  shows "\<exists>rs1 ns. new_flakes (s\<lparr>flakes := fst (moved_flakes (flakes s) rs)\<rparr>) rs1 = Inr (ns, rs') \<and>
           s' = s\<lparr>flakes := filter (\<lambda>(row, col). row < height s)
                              (fst (moved_flakes (flakes s) rs) @ ns)\<rparr>"
proof -
  obtain ms rs1 where mv: "moved_flakes (flakes s) rs = (ms, rs1)"
    by (cases "moved_flakes (flakes s) rs")
  show ?thesis
  proof (cases "new_flakes (s\<lparr>flakes := ms\<rparr>) rs1")
    case (Inl e)
    with assms mv show ?thesis by (simp add: update_flakes_def)
  next
    case (Inr p)
    obtain ns rs2 where p: "p = (ns, rs2)" by (cases p)
    from assms mv Inr p show ?thesis by (auto simp: update_flakes_def)
  qed
qed

text \<open>
  Claim C7. For every list of flakes and every outcome of the random draws,
  \<^verbatim>\<open>moved_flakes\<close> returns a list of the same length, and the flake at each
  position is the input flake of that position moved to \<open>(row + 1, column + \<delta>)\<close> with
  \<open>\<delta>\<close> one of \<open>-1\<close>, \<open>0\<close>, \<open>1\<close>.
\<close>

theorem moved_flakes_shape:
  "length (fst (moved_flakes fs rs)) = length fs \<and>
   (\<forall>i < length fs.
      fst (fst (moved_flakes fs rs) ! i) = fst (fs ! i) + 1 \<and>
      snd (fst (moved_flakes fs rs) ! i) - snd (fs ! i) \<in> {- 1, 0, 1})"
proof -
  obtain ms rs' where mv: "moved_flakes fs rs = (ms, rs')" by (cases "moved_flakes fs rs")
  from moved_flakes_all2[OF mv] show ?thesis
    unfolding mv by (simp add: list_all2_conv_all_nth shimmied_def)
qed

theorem moved_flakes_shape_witness:
  "fst (moved_flakes [(0, 0), (3, 7)] [0, 5]) = [(1, - 1), (4, 8)] \<and>
   (1::nat) < length [(0::int, 0::int), (3, 7)] \<and>
   fst (fst (moved_flakes [(0, 0), (3, 7)] [0, 5]) ! 1) = 3 + 1 \<and>
   snd (fst (moved_flakes [(0, 0), (3, 7)] [0, 5]) ! 1) - 7 \<in> {- 1, 0, 1}"
  using moved_flakes_shape [of "[(0, 0), (3, 7)]" "[0, 5]"]
  by (simp add: random_choice_def)

text \<open>
  Claim C4. Whenever \<^verbatim>\<open>update_flakes\<close> completes, every flake left in the
  collection has a row below the height. A flake that stood at \<open>(height - 1, c)\<close>
  before the tick is moved to row \<open>height\<close> and its image is not in the collection
  afterwards. The flakes that remain are, in number, the old flakes whose new row is
  still below the height and the flakes spawned in this tick.
\<close>

theorem update_flakes_rows_below_height:
  assumes "update_flakes s rs = Inr (s', rs')"
  shows "(\<forall>f \<in> set (flakes s'). fst f < height s') \<and>
         (\<forall>i < length (flakes s). \<forall>c. flakes s ! i = (height s - 1, c) \<longrightarrow>
            fst (fst (moved_flakes (flakes s) rs) ! i) = height s \<and>
            fst (moved_flakes (flakes s) rs) ! i \<notin> set (flakes s')) \<and>
         (\<exists>k. num_flakes s = Inr k \<and>
            int (length (flakes s')) =
              int (length (filter (\<lambda>f. fst f + 1 < height s) (flakes s))) +
              (if 0 < height s then k else 0))"
proof -
  define ms where "ms = fst (moved_flakes (flakes s) rs)"
  from update_flakes_Inr[OF assms] obtain rs1 ns
    where nf: "new_flakes (s\<lparr>flakes := ms\<rparr>) rs1 = Inr (ns, rs')"
      and s': "s' = s\<lparr>flakes := filter (\<lambda>(row, col). row < height s) (ms @ ns)\<rparr>"
    unfolding ms_def by blast
  have all2: "list_all2 shimmied (flakes s) ms"
    unfolding ms_def by (rule moved_flakes_all2[of _ rs _ "snd (moved_flakes (flakes s) rs)"]) simp
  have rows: "\<forall>f \<in> set (flakes s'). fst f < height s'"
    by (auto simp: s')
  have gone: "\<forall>i < length (flakes s). \<forall>c. flakes s ! i = (height s - 1, c) \<longrightarrow>
            fst (ms ! i) = height s \<and> ms ! i \<notin> set (flakes s')"
  proof (intro allI impI)
    fix i c assume i: "i < length (flakes s)" and at: "flakes s ! i = (height s - 1, c)"
    from all2 i have "shimmied (flakes s ! i) (ms ! i)" by (simp add: list_all2_conv_all_nth)
    with at have r: "fst (ms ! i) = height s" by (simp add: shimmied_def)
    moreover have "ms ! i \<notin> set (flakes s')" using rows r by (auto simp: s')
    ultimately show "fst (ms ! i) = height s \<and> ms ! i \<notin> set (flakes s')" by simp
  qed
  from new_flakes_result[OF nf] obtain k
    where k: "num_flakes (s\<lparr>flakes := ms\<rparr>) = Inr k" and len_ns: "int (length ns) = k"
    and row0: "\<forall>f \<in> set ns. fst f = 0" by auto
  have nfs: "num_flakes s = Inr k" using k by (simp add: num_flakes_def)
  have fns: "filter (\<lambda>(row, col). row < height s) ns = (if 0 < height s then ns else [])"
    using row0 by (auto simp: filter_empty_conv filter_id_conv)
  have "length (flakes s') =
          length (filter (\<lambda>f. fst f + 1 < height s) (flakes s)) +
          length (filter (\<lambda>(row, col). row < height s) ns)"
    by (simp add: s' filter_moved_length[OF all2])
  then have "int (length (flakes s')) =
            int (length (filter (\<lambda>f. fst f + 1 < height s) (flakes s))) +
            (if 0 < height s then k else 0)"
    unfolding fns using len_ns by simp
  with nfs have count: "\<exists>k. num_flakes s = Inr k \<and>
            int (length (flakes s')) =
              int (length (filter (\<lambda>f. fst f + 1 < height s) (flakes s))) +
              (if 0 < height s then k else 0)" by blast
  show ?thesis using rows gone count unfolding ms_def by blast
qed

theorem update_flakes_rows_below_height_witness:
  "update_flakes \<lparr>height = 2, width = 10, intensity = 10, flakes = [(1, 4), (0, 200)]\<rparr> [0, 1, 7]
     = Inr (\<lparr>height = 2, width = 10, intensity = 10, flakes = [(1, 200), (0, 7)]\<rparr>, []) \<and>
   list_all (\<lambda>f. fst f < 2) [(1::int, 200::int), (0, 7)] \<and>
   [(1::int, 4::int), (0, 200)] ! 0 = (2 - 1, 4) \<and>
   fst (moved_flakes [(1, 4), (0, 200)] [0, 1, 7]) ! 0 = (2, 3) \<and>
   (2::int, 3::int) \<notin> set [(1, 200), (0, 7)] \<and>
   num_flakes \<lparr>height = 2, width = 10, intensity = 10, flakes = [(1, 4), (0, 200)]\<rparr> = Inr 1 \<and>
   int (length [(1::int, 200::int), (0, 7)]) = 1 + 1"
proof -
  have run: "update_flakes \<lparr>height = 2, width = 10, intensity = 10, flakes = [(1, 4), (0, 200)]\<rparr> [0, 1, 7]
     = Inr (\<lparr>height = 2, width = 10, intensity = 10, flakes = [(1, 200), (0, 7)]\<rparr>, [])"
    by code_simp
  have mv: "fst (moved_flakes [(1, 4), (0, 200)] [0, 1, 7]) ! 0 = (2, 3)"
    by code_simp
  have n: "num_flakes \<lparr>height = 2, width = 10, intensity = 10, flakes = [(1, 4), (0, 200)]\<rparr> = Inr 1"
    by code_simp
  from update_flakes_rows_below_height [OF run] run mv n show ?thesis
    by simp
qed

text \<open>
  Claim C9. The removal at the end of \<^verbatim>\<open>update_flakes\<close> looks at the row only:
  of the moved and the new flakes, exactly those with a row below the height are in
  the collection afterwards, whatever their column. So the image of every old flake
  whose new row is below the height is retained, also with a column outside
  \<open>[0, width)\<close>.
\<close>

theorem update_flakes_row_only_removal:
  assumes "update_flakes s rs = Inr (s', rs')"
  shows "\<exists>ns rs1. new_flakes (s\<lparr>flakes := fst (moved_flakes (flakes s) rs)\<rparr>) rs1 = Inr (ns, rs') \<and>
          (\<forall>f \<in> set (fst (moved_flakes (flakes s) rs) @ ns).
              (f \<in> set (flakes s')) = (fst f < height s)) \<and>
          (\<forall>i < length (flakes s).
              fst (flakes s ! i) + 1 < height s \<longrightarrow>
              fst (moved_flakes (flakes s) rs) ! i \<in> set (flakes s'))"
proof -
  define ms where "ms = fst (moved_flakes (flakes s) rs)"
  from update_flakes_Inr[OF assms] obtain rs1 ns
    where nf: "new_flakes (s\<lparr>flakes := ms\<rparr>) rs1 = Inr (ns, rs')"
      and s': "s' = s\<lparr>flakes := filter (\<lambda>(row, col). row < height s) (ms @ ns)\<rparr>"
    unfolding ms_def by blast
  have all2: "list_all2 shimmied (flakes s) ms"
    unfolding ms_def by (rule moved_flakes_all2[of _ rs _ "snd (moved_flakes (flakes s) rs)"]) simp
  have keep: "\<forall>f \<in> set (ms @ ns). (f \<in> set (flakes s')) = (fst f < height s)"
    by (auto simp: s')
  have "\<forall>i < length (flakes s). fst (flakes s ! i) + 1 < height s \<longrightarrow> ms ! i \<in> set (flakes s')"
  proof (intro allI impI)
    fix i assume i: "i < length (flakes s)" and r: "fst (flakes s ! i) + 1 < height s"
    from all2 i have sh: "shimmied (flakes s ! i) (ms ! i)" and il: "i < length ms"
      by (simp_all add: list_all2_conv_all_nth)
    from sh r have "fst (ms ! i) < height s" by (simp add: shimmied_def)
    moreover have "ms ! i \<in> set (ms @ ns)" using il by simp
    ultimately show "ms ! i \<in> set (flakes s')" using keep by blast
  qed
  with nf keep show ?thesis unfolding ms_def by blast
qed

theorem update_flakes_row_only_removal_witness:
  "update_flakes \<lparr>height = 5, width = 3, intensity = 0, flakes = [(1, - 7), (4, 1)]\<rparr> [1, 1]
     = Inr (\<lparr>height = 5, width = 3, intensity = 0, flakes = [(2, - 7)]\<rparr>, []) \<and>
   (0::nat) < length [(1::int, - 7::int), (4, 1)] \<and>
   fst ([(1::int, - 7::int), (4, 1)] ! 0) + 1 < 5 \<and>
   fst (moved_flakes [(1, - 7), (4, 1)] [1, 1]) ! 0 \<in> set [(2::int, - 7::int)]"
proof -
  have run: "update_flakes \<lparr>height = 5, width = 3, intensity = 0, flakes = [(1, - 7), (4, 1)]\<rparr> [1, 1]
     = Inr (\<lparr>height = 5, width = 3, intensity = 0, flakes = [(2, - 7)]\<rparr>, [])"
    by code_simp
  from update_flakes_row_only_removal [OF run] run show ?thesis
    by (simp add: random_choice_def)
qed

subsection \<open>Spawning\<close>

lemma count_within_width:
  assumes "0 \<le> (w::int)" "0 \<le> i" "i \<le> 100"
  shows "0 \<le> w * i div 100 \<and> w * i div 100 \<le> w"
proof -
  have "w * i \<le> w * 100" using assms by (intro mult_left_mono) simp_all
  then have "w * i div 100 \<le> w * 100 div 100" by (rule zdiv_mono1) simp
  moreover have "0 \<le> w * i" using assms by simp
  ultimately show ?thesis by (simp add: pos_imp_zdiv_nonneg_iff)
qed








subsection \<open>The input loop\<close>

lemma is_digit_iff: "is_digit c \<longleftrightarrow> c \<in> set ''0123456789''"
  by (cases c) (auto simp: is_digit_def)

lemma digit_value_range: "is_digit c \<Longrightarrow> 0 \<le> digit_value c \<and> digit_value c \<le> 9"
  by (auto simp: is_digit_def digit_value_def)

lemma handle_input_intensity_range:
  assumes "0 \<le> intensity (snow st)" "intensity (snow st) \<le> 10"
  shows "0 \<le> intensity (snow (handle_input user_input st)) \<and>
         intensity (snow (handle_input user_input st)) \<le> 10"
  using assms digit_value_range[of "hd user_input"] by (auto simp: handle_input_def)

lemma handle_input_width: "width (snow (handle_input user_input st)) = width (snow st)"
  by (simp add: handle_input_def)

lemma handle_input_running:
  "running (handle_input user_input st) \<longleftrightarrow> running st \<and> user_input \<noteq> ''x''"
  by (simp add: handle_input_def)

lemma user_input_handler_intensity_range:
  "0 \<le> intensity (snow st) \<Longrightarrow> intensity (snow st) \<le> 10 \<Longrightarrow>
   0 \<le> intensity (snow (snd (user_input_handler ins st))) \<and>
   intensity (snow (snd (user_input_handler ins st))) \<le> 10"
proof (induction ins arbitrary: st)
  case Nil
  then show ?case by simp
next
  case (Cons l ls)
  show ?case
  proof (cases "running st")
    case True
    from handle_input_intensity_range[OF Cons.prems, of l]
    have "0 \<le> intensity (snow (handle_input l st))" "intensity (snow (handle_input l st)) \<le> 10"
      by simp_all
    from Cons.IH[OF this] True show ?thesis by simp
  next
    case False
    with Cons.prems show ?thesis by simp
  qed
qed

lemma user_input_handler_width:
  "width (snow (snd (user_input_handler ins st))) = width (snow st)"
  by (induction ins arbitrary: st) (simp_all add: handle_input_width)

text \<open>
  Claim C3, as the code has it. While the loop is running, a line \<^verbatim>\<open>"x"\<close> ends it
  without an exception and with \<^verbatim>\<open>running\<close> set to \<^verbatim>\<open>False\<close>. When the input
  ends before any \<^verbatim>\<open>"x"\<close>, \<^verbatim>\<open>input()\<close> raises \<^verbatim>\<open>EOFError\<close>, which the handler
  does not catch: the loop ends with that exception and \<^verbatim>\<open>running\<close> is still
  \<^verbatim>\<open>True\<close>, so nothing tells the simulation loop to stop. The loop reads every line
  once; it does not spin.
\<close>

theorem user_input_handler_eof:
  "running st \<Longrightarrow>
   (if ''x'' \<in> set ins
    then fst (user_input_handler ins st) = None \<and> \<not> running (snd (user_input_handler ins st))
    else fst (user_input_handler ins st) = Some EOFError \<and> running (snd (user_input_handler ins st)))"
proof (induction ins arbitrary: st)
  case Nil
  then show ?case by simp
next
  case (Cons l ls)
  show ?case
  proof (cases "l = ''x''")
    case True
    have "\<not> running (handle_input l st)" using True by (simp add: handle_input_running)
    then have "user_input_handler ls (handle_input l st) = (None, handle_input l st)"
      by (cases ls) simp_all
    then show ?thesis using Cons.prems True \<open>\<not> running (handle_input l st)\<close> by simp
  next
    case False
    then have r: "running (handle_input l st)" using Cons.prems by (simp add: handle_input_running)
    from Cons.IH[OF r] Cons.prems False show ?thesis by simp
  qed
qed


theorem user_input_handler_eof_witness:
  "running \<lparr>snow = \<lparr>height = 30, width = 100, intensity = 2, flakes = []\<rparr>,
            running = True, display_help = True\<rparr> \<and>
   ''x'' \<notin> set [''i'', ''h''] \<and>
   user_input_handler [''i'', ''h'']
      \<lparr>snow = \<lparr>height = 30, width = 100, intensity = 2, flakes = []\<rparr>,
       running = True, display_help = True\<rparr>
     = (Some EOFError,
        \<lparr>snow = \<lparr>height = 30, width = 100, intensity = 3, flakes = []\<rparr>,
         running = True, display_help = False\<rparr>) \<and>
   ''x'' \<in> set [''i'', ''x'', ''d''] \<and>
   user_input_handler [''i'', ''x'', ''d'']
      \<lparr>snow = \<lparr>height = 30, width = 100, intensity = 2, flakes = []\<rparr>,
       running = True, display_help = True\<rparr>
     = (None,
        \<lparr>snow = \<lparr>height = 30, width = 100, intensity = 3, flakes = []\<rparr>,
         running = False, display_help = True\<rparr>)"
  using user_input_handler_eof [of "\<lparr>snow = \<lparr>height = 30, width = 100, intensity = 2, flakes = []\<rparr>,
            running = True, display_help = True\<rparr>" "[''i'', ''h'']"]
    user_input_handler_eof [of "\<lparr>snow = \<lparr>height = 30, width = 100, intensity = 2, flakes = []\<rparr>,
            running = True, display_help = True\<rparr>" "[''i'', ''x'', ''d'']"]
  by (simp add: handle_input_def)

text \<open>
  Claim C3 as stated fails: on end-of-input the handler ends with \<^verbatim>\<open>EOFError\<close> and
  leaves \<^verbatim>\<open>running\<close> as it was, where \<^verbatim>\<open>"x"\<close> ends it without an exception and
  clears the flag.
\<close>

theorem eof_is_not_exit_counterexample:
  "user_input_handler []
      \<lparr>snow = \<lparr>height = 30, width = 100, intensity = 2, flakes = []\<rparr>,
       running = True, display_help = True\<rparr>
     = (Some EOFError,
        \<lparr>snow = \<lparr>height = 30, width = 100, intensity = 2, flakes = []\<rparr>,
         running = True, display_help = True\<rparr>) \<and>
   user_input_handler [''x'']
      \<lparr>snow = \<lparr>height = 30, width = 100, intensity = 2, flakes = []\<rparr>,
       running = True, display_help = True\<rparr>
     = (None,
        \<lparr>snow = \<lparr>height = 30, width = 100, intensity = 2, flakes = []\<rparr>,
         running = False, display_help = True\<rparr>) \<and>
   user_input_handler []
      \<lparr>snow = \<lparr>height = 30, width = 100, intensity = 2, flakes = []\<rparr>,
       running = True, display_help = True\<rparr>
     \<noteq> user_input_handler [''x'']
      \<lparr>snow = \<lparr>height = 30, width = 100, intensity = 2, flakes = []\<rparr>,
       running = True, display_help = True\<rparr>"
  by (simp add: handle_input_def)

lemma increase_repeated:
  "running st \<Longrightarrow> intensity (snow st) \<le> 10 \<Longrightarrow>
   intensity (snow (snd (user_input_handler (replicate n ''i'') st)))
     = min (intensity (snow st) + int n) 10"
proof (induction n arbitrary: st)
  case 0
  then show ?case by simp
next
  case (Suc n)
  have r: "running (handle_input ''i'' st)" using Suc.prems by (simp add: handle_input_running)
  have i: "intensity (snow (handle_input ''i'' st)) = min (intensity (snow st) + 1) 10"
    by (simp add: handle_input_def)
  have "intensity (snow (handle_input ''i'' st)) \<le> 10" unfolding i by simp
  from Suc.IH[OF r this] Suc.prems show ?case unfolding i by simp
qed

text \<open>
  Claim C8. The decoding of one line: \<^verbatim>\<open>"i"\<close> sets the intensity to
  \<open>min (intensity + 1) 10\<close>, \<^verbatim>\<open>"d"\<close> to \<open>max (intensity - 1) 0\<close>, each of the ten
  digits sets it to that digit, \<^verbatim>\<open>"h"\<close> flips \<^verbatim>\<open>display_help\<close> (and \<^verbatim>\<open>"x"\<close>, the
  remaining command of the table, clears \<^verbatim>\<open>running\<close>); every other line, the empty
  one included, changes nothing. Ten times \<^verbatim>\<open>"i"\<close> from intensity 0 gives 10, and
  \<^verbatim>\<open>"d"\<close> at intensity 0 gives 0.
\<close>

theorem handle_input_decoding:
  "handle_input ''i'' st = st\<lparr>snow := (snow st)\<lparr>intensity := min (intensity (snow st) + 1) 10\<rparr>\<rparr> \<and>
   handle_input ''d'' st = st\<lparr>snow := (snow st)\<lparr>intensity := max (intensity (snow st) - 1) 0\<rparr>\<rparr> \<and>
   map (\<lambda>c. handle_input [c] st) ''0123456789''
     = map (\<lambda>n. st\<lparr>snow := (snow st)\<lparr>intensity := n\<rparr>\<rparr>) [0, 1, 2, 3, 4, 5, 6, 7, 8, 9] \<and>
   handle_input ''h'' st = st\<lparr>display_help := \<not> display_help st\<rparr> \<and>
   handle_input ''x'' st = st\<lparr>running := False\<rparr> \<and>
   (user_input \<notin> {''x'', ''i'', ''d'', ''h''} \<and> user_input \<notin> (\<lambda>c. [c]) ` set ''0123456789''
      \<longrightarrow> handle_input user_input st = st) \<and>
   handle_input [] st = st \<and>
   (running st \<and> intensity (snow st) = 0 \<longrightarrow>
      intensity (snow (snd (user_input_handler (replicate 10 ''i'') st))) = 10) \<and>
   (running st \<and> intensity (snow st) = 0 \<longrightarrow>
      intensity (snow (snd (user_input_handler [''d''] st))) = 0)"
proof -
  have other: "handle_input user_input st = st"
    if "user_input \<notin> {''x'', ''i'', ''d'', ''h''}"
      and "user_input \<notin> (\<lambda>c. [c]) ` set ''0123456789''"
  proof -
    have "\<not> (length user_input = 1 \<and> is_digit (hd user_input))"
    proof
      assume a: "length user_input = 1 \<and> is_digit (hd user_input)"
      then obtain c where c: "user_input = [c]" by (cases user_input) auto
      with a have "c \<in> set ''0123456789''" by (simp only: is_digit_iff list.sel)
      with c that(2) show False by blast
    qed
    with that(1) show ?thesis by (auto simp: handle_input_def)
  qed
  have ten: "intensity (snow (snd (user_input_handler (replicate 10 ''i'') st))) = 10"
    if "running st \<and> intensity (snow st) = 0"
    using increase_repeated[of st 10] that by simp
  have dec: "intensity (snow (snd (user_input_handler [''d''] st))) = 0"
    if "running st \<and> intensity (snow st) = 0"
    using that by (simp add: handle_input_def)
  have digits: "map (\<lambda>c. handle_input [c] st) ''0123456789''
     = map (\<lambda>n. st\<lparr>snow := (snow st)\<lparr>intensity := n\<rparr>\<rparr>) [0, 1, 2, 3, 4, 5, 6, 7, 8, 9]"
    by (simp add: handle_input_def is_digit_def digit_value_def)
  have cmds: "handle_input ''i'' st = st\<lparr>snow := (snow st)\<lparr>intensity := min (intensity (snow st) + 1) 10\<rparr>\<rparr>"
    "handle_input ''d'' st = st\<lparr>snow := (snow st)\<lparr>intensity := max (intensity (snow st) - 1) 0\<rparr>\<rparr>"
    "handle_input ''h'' st = st\<lparr>display_help := \<not> display_help st\<rparr>"
    "handle_input ''x'' st = st\<lparr>running := False\<rparr>"
    "handle_input [] st = st"
    by (simp_all add: handle_input_def)
  show ?thesis using other ten dec digits cmds by blast
qed

theorem handle_input_decoding_witness:
  "''hello'' \<notin> {''x'', ''i'', ''d'', ''h''} \<and> ''hello'' \<notin> (\<lambda>c. [c]) ` set ''0123456789'' \<and>
   handle_input ''hello''
      \<lparr>snow = \<lparr>height = 30, width = 100, intensity = 0, flakes = []\<rparr>,
       running = True, display_help = True\<rparr>
     = \<lparr>snow = \<lparr>height = 30, width = 100, intensity = 0, flakes = []\<rparr>,
        running = True, display_help = True\<rparr> \<and>
   running \<lparr>snow = \<lparr>height = 30, width = 100, intensity = 0, flakes = []\<rparr>,
            running = True, display_help = True\<rparr> \<and>
   intensity (snow (snd (user_input_handler (replicate 10 ''i'')
      \<lparr>snow = \<lparr>height = 30, width = 100, intensity = 0, flakes = []\<rparr>,
       running = True, display_help = True\<rparr>))) = 10 \<and>
   intensity (snow (snd (user_input_handler [''d'']
      \<lparr>snow = \<lparr>height = 30, width = 100, intensity = 0, flakes = []\<rparr>,
       running = True, display_help = True\<rparr>))) = 0"
proof -
  have other: "''hello'' \<notin> {''x'', ''i'', ''d'', ''h''} \<and> ''hello'' \<notin> (\<lambda>c. [c]) ` set ''0123456789''"
    by auto
  have start: "running \<lparr>snow = \<lparr>height = 30, width = 100, intensity = 0, flakes = []\<rparr>,
            running = True, display_help = True\<rparr> \<and>
     intensity (snow \<lparr>snow = \<lparr>height = 30, width = 100, intensity = 0, flakes = []\<rparr>,
            running = True, display_help = True\<rparr>) = 0"
    by simp
  from handle_input_decoding [of "\<lparr>snow = \<lparr>height = 30, width = 100, intensity = 0, flakes = []\<rparr>,
            running = True, display_help = True\<rparr>" "''hello''"] other start
  show ?thesis by blast
qed


text \<open>
  Claim C10, as the code has it. From an intensity in \<open>[0, 10]\<close> (the start values
  \<open>[0, 9]\<close> included) every line of input, and so every run of the input loop, leaves
  the intensity in \<open>[0, 10]\<close>, and the width as it was. With such an intensity and a
  width that is not negative and below \<open>2\<^sup>5\<^sup>3 / 10\<close> (so that the quotient in
  double precision is exact) the count is \<open>\<lfloor>width * intensity / 100\<rfloor>\<close> and lies
  between 0 and the width, which is the size of the population \<^verbatim>\<open>range(width)\<close>; so
  \<^verbatim>\<open>new_flakes\<close> returns, whatever flakes the field holds at that moment and whatever
  the random draws are.
\<close>

theorem reachable_intensity_sample_defined:
  assumes "0 \<le> intensity (snow st)" and "intensity (snow st) \<le> 10"
    and "0 \<le> width (snow st)" and "width (snow st) * 10 < 2 ^ 53"
  shows "0 \<le> intensity (snow (handle_input user_input st)) \<and>
         intensity (snow (handle_input user_input st)) \<le> 10 \<and>
         0 \<le> intensity (snow (snd (user_input_handler ins st))) \<and>
         intensity (snow (snd (user_input_handler ins st))) \<le> 10 \<and>
         num_flakes ((snow (snd (user_input_handler ins st)))\<lparr>flakes := fl\<rparr>)
           = Inr (width (snow st) * intensity (snow (snd (user_input_handler ins st))) div 100) \<and>
         0 \<le> width (snow st) * intensity (snow (snd (user_input_handler ins st))) div 100 \<and>
         width (snow st) * intensity (snow (snd (user_input_handler ins st))) div 100
           \<le> int (length (py_range (width (snow st)))) \<and>
         width (snow st) * intensity (snow (snd (user_input_handler ins st))) div 100
           \<le> width (snow st) \<and>
         (\<exists>fs rs'. new_flakes ((snow (snd (user_input_handler ins st)))\<lparr>flakes := fl\<rparr>) rs
                      = Inr (fs, rs'))"
proof -
  define s' where "s' = (snow (snd (user_input_handler ins st)))\<lparr>flakes := fl\<rparr>"
  define i' where "i' = intensity (snow (snd (user_input_handler ins st)))"
  define w where "w = width (snow st)"
  have one: "0 \<le> intensity (snow (handle_input user_input st)) \<and>
         intensity (snow (handle_input user_input st)) \<le> 10"
    using handle_input_intensity_range[OF assms(1,2)] .
  have run: "0 \<le> i' \<and> i' \<le> 10"
    unfolding i'_def using user_input_handler_intensity_range[OF assms(1,2)] .
  have ws: "width s' = w" by (simp add: s'_def w_def user_input_handler_width)
  have it: "intensity s' = i'" by (simp add: s'_def i'_def)
  have w0: "0 \<le> w" using assms(3) by (simp add: w_def)
  have "w * i' \<le> w * 10" using w0 run by (intro mult_left_mono) simp_all
  then have small: "w * i' < 2 ^ 53" using assms(4) by (simp add: w_def)
  have p: "0 \<le> w * i'" using w0 run by simp
  have n: "num_flakes s' = Inr (w * i' div 100)"
    using num_flakes_exact[of s'] p small by (simp add: ws it)
  have b: "0 \<le> w * i' div 100 \<and> w * i' div 100 \<le> w"
    using count_within_width[of w i'] w0 run by simp
  then have "0 \<le> w * i' div 100" "w * i' div 100 \<le> max 0 (width s')" using ws by simp_all
  from new_flakes_returns[OF n this, of rs]
  have r: "\<exists>fs rs'. new_flakes s' rs = Inr (fs, rs')" by blast
  have l: "w * i' div 100 \<le> int (length (py_range w))"
    using b w0 by (simp add: length_py_range)
  show ?thesis using one run n b l r unfolding s'_def i'_def w_def by blast
qed

theorem reachable_intensity_sample_defined_witness:
  "(0::int) \<le> 9 \<and> (9::int) \<le> 10 \<and> (0::int) \<le> 100 \<and> (100::int) * 10 < 2 ^ 53 \<and>
   intensity (snow (snd (user_input_handler [''i'', ''i'', ''h'']
      \<lparr>snow = \<lparr>height = 30, width = 100, intensity = 9, flakes = []\<rparr>,
       running = True, display_help = True\<rparr>))) = 10 \<and>
   num_flakes ((snow (snd (user_input_handler [''i'', ''i'', ''h'']
      \<lparr>snow = \<lparr>height = 30, width = 100, intensity = 9, flakes = []\<rparr>,
       running = True, display_help = True\<rparr>)))\<lparr>flakes := [(3, 4)]\<rparr>) = Inr 10 \<and>
   (\<exists>fs rs'. new_flakes ((snow (snd (user_input_handler [''i'', ''i'', ''h'']
      \<lparr>snow = \<lparr>height = 30, width = 100, intensity = 9, flakes = []\<rparr>,
       running = True, display_help = True\<rparr>)))\<lparr>flakes := [(3, 4)]\<rparr>) [] = Inr (fs, rs'))"
proof -
  have i: "intensity (snow (snd (user_input_handler [''i'', ''i'', ''h'']
      \<lparr>snow = \<lparr>height = 30, width = 100, intensity = 9, flakes = []\<rparr>,
       running = True, display_help = True\<rparr>))) = 10"
    by (simp add: handle_input_def)
  from reachable_intensity_sample_defined [of
      "\<lparr>snow = \<lparr>height = 30, width = 100, intensity = 9, flakes = []\<rparr>,
        running = True, display_help = True\<rparr>" "''i''" "[''i'', ''i'', ''h'']" "[(3, 4)]" "[]"] i
  show ?thesis by simp
qed

text \<open>
  Claim C10 as stated, for every width, fails in three ways, each at an intensity the
  input loop reaches from \<open>[0, 9]\<close>. At \<open>width = 1563749870614811\<close>, \<open>intensity = 9\<close>
  the count is not \<open>\<lfloor>width * intensity / 100\<rfloor>\<close> but one more. At \<open>width = 10\<^sup>3\<^sup>1\<^sup>0\<close>,
  \<open>intensity = 10\<close> the quotient is beyond the largest double and
  \<^verbatim>\<open>new_flakes\<close> raises \<^verbatim>\<open>OverflowError\<close>. At \<open>width = -100\<close> (which
  \<^verbatim>\<open>main\<close> accepts), \<open>intensity = 10\<close> the count \<open>-10\<close> exceeds the width and
  \<^verbatim>\<open>random.sample\<close> raises \<^verbatim>\<open>ValueError\<close>.
\<close>

theorem spawn_count_counterexample:
  "intensity (snow (snd (user_input_handler [''i'']
      \<lparr>snow = \<lparr>height = 30, width = - 100, intensity = 9, flakes = []\<rparr>,
       running = True, display_help = True\<rparr>))) = 10 \<and>
   (1563749870614811::int) * 9 div 100 = 140737488355332 \<and>
   num_flakes \<lparr>height = 30, width = 1563749870614811, intensity = 9, flakes = []\<rparr>
     = Inr 140737488355333 \<and>
   new_flakes \<lparr>height = 30, width = 10 ^ 310, intensity = 10, flakes = []\<rparr> []
     = Inl OverflowError \<and>
   \<not> (- 100::int) * 10 div 100 \<le> - 100 \<and>
   new_flakes \<lparr>height = 30, width = - 100, intensity = 10, flakes = []\<rparr> [] = Inl ValueError"
proof -
  have reach: "intensity (snow (snd (user_input_handler [''i'']
      \<lparr>snow = \<lparr>height = 30, width = - 100, intensity = 9, flakes = []\<rparr>,
       running = True, display_help = True\<rparr>))) = 10"
    by (simp add: handle_input_def)
  have inexact: "num_flakes \<lparr>height = 30, width = 1563749870614811, intensity = 9, flakes = []\<rparr>
     = Inr 140737488355333"
    by code_simp
  have "num_flakes \<lparr>height = 30, width = 10 ^ 310, intensity = 10, flakes = []\<rparr>
     = Inl OverflowError"
    by code_simp
  from new_flakes_overflow[OF this, of "[]"]
  have overflow: "new_flakes \<lparr>height = 30, width = 10 ^ 310, intensity = 10, flakes = []\<rparr> []
     = Inl OverflowError" .
  have "num_flakes \<lparr>height = 30, width = - 100, intensity = 10, flakes = []\<rparr> = Inr (- 10)"
    by code_simp
  from new_flakes_raises[OF this, of "[]"]
  have negative: "new_flakes \<lparr>height = 30, width = - 100, intensity = 10, flakes = []\<rparr> []
     = Inl ValueError"
    by simp
  show ?thesis using reach inexact overflow negative by simp
qed

subsection \<open>Drawing\<close>

lemma py_index_Inr: "py_index n i = Inr j \<Longrightarrow> j < n"
  by (auto simp: py_index_def Let_def split: if_splits)

lemma py_index_nonneg: "0 \<le> i \<Longrightarrow> i < int n \<Longrightarrow> py_index n i = Inr (nat i)"
  by (simp add: py_index_def)

lemma set_cell_shape:
  assumes "set_cell grid row col = Inr grid'"
  shows "map length grid' = map length grid"
    and "\<Union> (set ` set grid') \<subseteq> insert CHR ''*'' (\<Union> (set ` set grid))"
proof -
  from assms obtain r c where r: "py_index (length grid) row = Inr r"
    and c: "py_index (length (grid ! r)) col = Inr c"
    and g: "grid' = grid[r := (grid ! r)[c := CHR ''*'']]"
    by (auto simp: set_cell_def split: sum.splits)
  have rl: "r < length grid" using r by (rule py_index_Inr)
  show "map length grid' = map length grid"
    unfolding g using rl by (simp add: map_update list_update_same_conv)
  have sub: "set ((grid ! r)[c := CHR ''*'']) \<subseteq> insert CHR ''*'' (set (grid ! r))"
    by (rule set_update_subset_insert)
  show "\<Union> (set ` set grid') \<subseteq> insert CHR ''*'' (\<Union> (set ` set grid))"
  proof
    fix x assume "x \<in> \<Union> (set ` set grid')"
    then obtain row' where row': "row' \<in> set grid'" and x: "x \<in> set row'" by blast
    from row' have "row' \<in> insert ((grid ! r)[c := CHR ''*'']) (set grid)"
      unfolding g using set_update_subset_insert by fast
    then show "x \<in> insert CHR ''*'' (\<Union> (set ` set grid))"
    proof
      assume "row' = (grid ! r)[c := CHR ''*'']"
      with x sub have "x \<in> insert CHR ''*'' (set (grid ! r))" by blast
      moreover have "grid ! r \<in> set grid" using rl by simp
      ultimately show ?thesis by blast
    next
      assume "row' \<in> set grid"
      with x show ?thesis by blast
    qed
  qed
qed

lemma mark_flakes_shape:
  "mark_flakes h w fs grid = Inr grid' \<Longrightarrow>
   map length grid' = map length grid \<and>
   \<Union> (set ` set grid') \<subseteq> insert CHR ''*'' (\<Union> (set ` set grid))"
proof (induction fs arbitrary: grid)
  case Nil
  then show ?case by auto
next
  case (Cons f fs)
  obtain row col where f: "f = (row, col)" by (cases f)
  show ?case
  proof (cases "row < h \<and> col < w")
    case True
    with Cons.prems f obtain g1 where sc: "set_cell grid row col = Inr g1"
      and rest: "mark_flakes h w fs g1 = Inr grid'"
      by (auto split: sum.splits)
    from Cons.IH[OF rest] have 1: "map length grid' = map length g1"
      and 2: "\<Union> (set ` set grid') \<subseteq> insert CHR ''*'' (\<Union> (set ` set g1))" by simp_all
    from set_cell_shape[OF sc] have 3: "map length g1 = map length grid"
      and 4: "\<Union> (set ` set g1) \<subseteq> insert CHR ''*'' (\<Union> (set ` set grid))" by simp_all
    have "\<Union> (set ` set grid') \<subseteq> insert CHR ''*'' (\<Union> (set ` set grid))"
      using 2 4 by blast
    with 1 3 show ?thesis by simp
  next
    case False
    with Cons.prems f have "mark_flakes h w fs grid = Inr grid'" by auto
    from Cons.IH[OF this] show ?thesis .
  qed
qed

text \<open>
  Whenever \<^verbatim>\<open>render\<close> returns, the text is \<open>height\<close> rows of \<open>width\<close> cells, blank
  or marked, joined by newlines; and it does return when no flake has a negative
  coordinate.
\<close>

lemma render_shape:
  assumes "render s = Inr str"
  shows "\<exists>rows. str = str_join newline rows \<and> length rows = nat (height s) \<and>
           (\<forall>r \<in> set rows. length r = nat (width s) \<and> set r \<subseteq> {CHR '' '', CHR ''*''})"
proof -
  from assms obtain rows
    where m: "mark_flakes (height s) (width s) (flakes s) (blank_grid (height s) (width s)) = Inr rows"
      and str: "str = str_join newline rows"
    by (auto simp: render_def split: sum.splits)
  from mark_flakes_shape[OF m]
  have len: "map length rows = map length (blank_grid (height s) (width s))"
    and chars: "\<Union> (set ` set rows) \<subseteq> insert CHR ''*'' (\<Union> (set ` set (blank_grid (height s) (width s))))"
    by simp_all
  have l1: "length rows = nat (height s)"
    using arg_cong[OF len, of length] by (simp add: blank_grid_def)
  have l2: "\<forall>r \<in> set rows. length r = nat (width s)"
  proof
    fix r assume "r \<in> set rows"
    then have "length r \<in> set (map length rows)" by simp
    then show "length r = nat (width s)" unfolding len by (auto simp: blank_grid_def)
  qed
  have l3: "\<forall>r \<in> set rows. set r \<subseteq> {CHR '' '', CHR ''*''}"
    using chars by (auto simp: blank_grid_def split: if_splits)
  from str l1 l2 l3 show ?thesis by blast
qed

lemma mark_flakes_returns:
  assumes "\<forall>f \<in> set fs. 0 \<le> fst f \<and> 0 \<le> snd f"
    and "length grid = nat h" and "\<forall>r \<in> set grid. length r = nat w"
  shows "\<exists>grid'. mark_flakes h w fs grid = Inr grid'"
  using assms
proof (induction fs arbitrary: grid)
  case Nil
  then show ?case by simp
next
  case (Cons f fs)
  obtain row col where f: "f = (row, col)" by (cases f)
  from Cons.prems(1) f have nn: "0 \<le> row" "0 \<le> col" by auto
  from Cons.prems(1) have rest: "\<forall>f \<in> set fs. 0 \<le> fst f \<and> 0 \<le> snd f" by simp
  show ?case
  proof (cases "row < h \<and> col < w")
    case True
    have r: "py_index (length grid) row = Inr (nat row)"
      using nn True Cons.prems(2) by (intro py_index_nonneg) simp_all
    have "nat row < length grid" using r by (rule py_index_Inr)
    then have "grid ! nat row \<in> set grid" by simp
    then have lw: "length (grid ! nat row) = nat w" using Cons.prems(3) by blast
    have c: "py_index (length (grid ! nat row)) col = Inr (nat col)"
      using nn True lw by (intro py_index_nonneg) simp_all
    define g1 where "g1 = grid[nat row := (grid ! nat row)[nat col := CHR ''*'']]"
    have sc: "set_cell grid row col = Inr g1"
      using r c by (simp add: set_cell_def g1_def)
    from set_cell_shape(1)[OF sc] have ml: "map length g1 = map length grid" .
    have a: "length g1 = nat h" using arg_cong[OF ml, of length] Cons.prems(2) by simp
    have b: "\<forall>r \<in> set g1. length r = nat w"
    proof
      fix r assume "r \<in> set g1"
      then have "length r \<in> set (map length g1)" by simp
      then show "length r = nat w" unfolding ml using Cons.prems(3) by auto
    qed
    from Cons.IH[OF rest a b] sc True f show ?thesis by simp
  next
    case False
    from Cons.IH[OF rest Cons.prems(2,3)] False f show ?thesis by auto
  qed
qed

lemma render_returns:
  assumes "\<forall>f \<in> set (flakes s). 0 \<le> fst f \<and> 0 \<le> snd f"
  shows "\<exists>str. render s = Inr str"
proof -
  have "\<exists>grid'. mark_flakes (height s) (width s) (flakes s) (blank_grid (height s) (width s)) = Inr grid'"
    using assms by (intro mark_flakes_returns) (simp_all add: blank_grid_def)
  then show ?thesis by (auto simp: render_def)
qed


text \<open>
  Claim C2 says that \<^verbatim>\<open>render\<close> marks a cell only for flakes with a row in
  \<open>[0, height)\<close> and a column in \<open>[0, width)\<close>, and skips every flake whose column is
  outside \<open>[0, width)\<close>. The guard \<^verbatim>\<open>row < self.height and col < self.width\<close> has no
  lower bound, and a negative index counts from the end of a Python list. In a field
  of height 2 and width 10 at intensity 10, two ticks in which every draw picks index 0
  give the flakes \<open>(1, -1)\<close> and \<open>(0, 0)\<close>; \<^verbatim>\<open>render\<close> then marks the last cell of
  row 1 for the flake at column \<open>-1\<close>, a cell that is blank without that flake.
\<close>

theorem render_negative_column_marks_last_cell:
  "ticks 2 \<lparr>height = 2, width = 10, intensity = 10, flakes = []\<rparr> []
     = Inr (\<lparr>height = 2, width = 10, intensity = 10, flakes = [(1, - 1), (0, 0)]\<rparr>, []) \<and>
   render \<lparr>height = 2, width = 10, intensity = 10, flakes = [(1, - 1), (0, 0)]\<rparr>
     = Inr (''*         '' @ newline @ ''         *'') \<and>
   render \<lparr>height = 2, width = 10, intensity = 10, flakes = [(0, 0)]\<rparr>
     = Inr (''*         '' @ newline @ ''          '')"
  by code_simp

text \<open>
  Claim C5 says that \<^verbatim>\<open>render\<close> returns \<open>height\<close> lines of \<open>width\<close> characters for
  every collection of flakes. A flake in a visible row with a column below \<open>-width\<close>
  passes the guard and indexes its row out of range. In a field of height 12 and width
  10 at intensity 10, twelve ticks in which every draw picks index 0 bring the first
  flake to \<open>(11, -11)\<close>, and \<^verbatim>\<open>render\<close> raises \<^verbatim>\<open>IndexError\<close> instead of returning.
\<close>

theorem render_column_below_minus_width_raises:
  "ticks 12 \<lparr>height = 12, width = 10, intensity = 10, flakes = []\<rparr> []
     = Inr (\<lparr>height = 12, width = 10, intensity = 10,
             flakes = [(11, - 11), (10, - 10), (9, - 9), (8, - 8), (7, - 7), (6, - 6),
                       (5, - 5), (4, - 4), (3, - 3), (2, - 2), (1, - 1), (0, 0)]\<rparr>, []) \<and>
   render \<lparr>height = 12, width = 10, intensity = 10,
           flakes = [(11, - 11), (10, - 10), (9, - 9), (8, - 8), (7, - 7), (6, - 6),
                     (5, - 5), (4, - 4), (3, - 3), (2, - 2), (1, - 1), (0, 0)]\<rparr>
     = Inl IndexError \<and>
   render \<lparr>height = 12, width = 10, intensity = 10, flakes = [(11, - 11)]\<rparr> = Inl IndexError"
  by code_simp

end
